theory Spec2Isabelle
  imports Main "HOL-Library.List_Lexorder" "HOL-Library.Char_ord" "HOL-Library.Option_ord"
begin

section \<open>The ICS sanitizer (\<open>_sanitize_ics\<close>, daily_digest.py lines 338-372)\<close>

text \<open>
  Python \<open>bytes\<close> are modelled as \<open>string\<close> (a list of 8-bit characters). The sanitizer
  only uses total operations on bytes (\<open>replace\<close>, \<open>split\<close>, \<open>startswith\<close>, slicing,
  \<open>strip\<close>, \<open>in\<close>, \<open>isdigit\<close>, \<open>join\<close>), none of which raises, so the model is a total
  function without an error branch.
\<close>

type_synonym bytes = string

abbreviation LF :: char where "LF \<equiv> CHR 0x0A"
abbreviation CR :: char where "CR \<equiv> CHR 0x0D"
abbreviation SP :: char where "SP \<equiv> CHR 0x20"
abbreviation TAB :: char where "TAB \<equiv> CHR 0x09"

text \<open>\<open>raw.replace(b"\r\n", b"\n")\<close>: every non-overlapping CR LF pair, scanning from the
  left, becomes one LF.\<close>

fun replace_crlf :: "bytes \<Rightarrow> bytes" where
  "replace_crlf (c1 # c2 # cs) =
     (if c1 = CR \<and> c2 = LF then LF # replace_crlf cs else c1 # replace_crlf (c2 # cs))"
| "replace_crlf cs = cs"

text \<open>\<open>.replace(b"\r", b"\n")\<close>: every remaining CR becomes LF.\<close>

definition replace_cr :: "bytes \<Rightarrow> bytes" where
  "replace_cr txt = map (\<lambda>c. if c = CR then LF else c) txt"

text \<open>\<open>txt.split(b"\n")\<close>: the pieces between line feeds; never the empty list
  (\<open>b"".split(b"\n") == [b""]\<close>).\<close>

fun split_lf :: "bytes \<Rightarrow> bytes list" where
  "split_lf [] = [[]]"
| "split_lf (c # cs) =
     (if c = LF then [] # split_lf cs
      else (case split_lf cs of [] \<Rightarrow> [[c]] | l # ls \<Rightarrow> (c # l) # ls))"

text \<open>\<open>line.startswith(b" ") or line.startswith(b"\t")\<close>.\<close>

fun starts_ws :: "bytes \<Rightarrow> bool" where
  "starts_ws [] = False"
| "starts_ws (c # cs) = (c = SP \<or> c = TAB)"

text \<open>
  The unfolding loop. Its state is the pair \<open>(unfolded_lines, current_line)\<close>; one step
  is the body of \<open>for line in txt.split(b"\n")\<close>; \<open>line[1:]\<close> is \<open>tl line\<close>.
\<close>

fun unfold_step :: "bytes list \<times> bytes \<Rightarrow> bytes \<Rightarrow> bytes list \<times> bytes" where
  "unfold_step (unfolded_lines, current_line) line =
     (if starts_ws line then (unfolded_lines, current_line @ tl line)
      else ((if current_line \<noteq> [] then unfolded_lines @ [current_line] else unfolded_lines),
            line))"

fun unfold_loop :: "bytes list \<times> bytes \<Rightarrow> bytes list \<Rightarrow> bytes list \<times> bytes" where
  "unfold_loop st [] = st"
| "unfold_loop st (line # rest) = unfold_loop (unfold_step st line) rest"

text \<open>The loop from the initial state, followed by "don't forget the last line".\<close>

definition unfold_lines :: "bytes list \<Rightarrow> bytes list" where
  "unfold_lines ls =
     (case unfold_loop ([], []) ls of
        (unfolded_lines, current_line) \<Rightarrow>
          if current_line \<noteq> [] then unfolded_lines @ [current_line] else unfolded_lines)"

text \<open>\<open>bytes.strip()\<close> removes ASCII whitespace (space, tab, LF, CR, VT, FF) at both ends.\<close>

definition is_space :: "char \<Rightarrow> bool" where
  "is_space c = (c = SP \<or> c = TAB \<or> c = LF \<or> c = CR \<or> c = CHR 0x0B \<or> c = CHR 0x0C)"

definition strip :: "bytes \<Rightarrow> bytes" where
  "strip s = rev (dropWhile is_space (rev (dropWhile is_space s)))"

text \<open>\<open>bytes.isdigit()\<close>: non-empty and every byte is an ASCII decimal digit.\<close>

definition is_digit :: "char \<Rightarrow> bool" where
  "is_digit c = (c \<in> set ''0123456789'')"

definition isdigit :: "bytes \<Rightarrow> bool" where
  "isdigit s = (s \<noteq> [] \<and> list_all is_digit s)"

text \<open>\<open>line.split(b":", 1)[0]\<close>: the bytes before the first colon.\<close>

definition before_colon :: "bytes \<Rightarrow> bytes" where
  "before_colon line = takeWhile (\<lambda>c. c \<noteq> CHR '':'') line"

text \<open>
  The filter loop \<open>for line in unfolded_lines\<close>, with \<open>sanitized_lines\<close> as the
  accumulator; each \<open>continue\<close> is a recursive call that leaves it unchanged.
\<close>

fun filter_loop :: "bytes list \<Rightarrow> bytes list \<Rightarrow> bytes list" where
  "filter_loop sanitized_lines [] = sanitized_lines"
| "filter_loop sanitized_lines (line # rest) =
     (if strip line = [] then filter_loop sanitized_lines rest
      else if CHR '':'' \<in> set line \<and> isdigit (strip (before_colon line))
        then filter_loop sanitized_lines rest
      else filter_loop (sanitized_lines @ [line]) rest)"

text \<open>\<open>b"\n".join(sanitized_lines)\<close>.\<close>

fun join_lf :: "bytes list \<Rightarrow> bytes" where
  "join_lf [] = []"
| "join_lf [l] = l"
| "join_lf (l # ls) = l @ LF # join_lf ls"

text \<open>The physical lines \<open>txt.split(b"\n")\<close>, the logical lines after unfolding
  (\<open>unfolded_lines\<close>), the lines that survive the filter, and the function itself.\<close>

definition physical_lines :: "bytes \<Rightarrow> bytes list" where
  "physical_lines raw = split_lf (replace_cr (replace_crlf raw))"

definition unfolded_lines :: "bytes \<Rightarrow> bytes list" where
  "unfolded_lines raw = unfold_lines (physical_lines raw)"

definition sanitized_lines :: "bytes \<Rightarrow> bytes list" where
  "sanitized_lines raw = filter_loop [] (unfolded_lines raw)"

definition sanitize_ics :: "bytes \<Rightarrow> bytes" where
  "sanitize_ics raw = join_lf (sanitized_lines raw)"

subsection \<open>Vocabulary for the sanitizer's properties\<close>

text \<open>A line is blank when \<open>not line.strip()\<close>: every byte is ASCII whitespace.\<close>

definition blank :: "bytes \<Rightarrow> bool" where
  "blank line = list_all is_space line"

text \<open>The test of lines 366-369: the line has a colon and the bytes before the first colon,
  stripped, are a non-empty run of decimal digits.\<close>

definition digit_name :: "bytes \<Rightarrow> bool" where
  "digit_name line = (CHR '':'' \<in> set line \<and> isdigit (strip (before_colon line)))"

text \<open>
  A feed has no orphan continuation when every physical line that begins with a space or
  a tab directly follows a non-empty physical line (so the first line is not a
  continuation, and no continuation follows an empty line).
\<close>

fun no_orphan :: "bytes \<Rightarrow> bytes list \<Rightarrow> bool" where
  "no_orphan prev [] = True"
| "no_orphan prev (l # ls) = ((starts_ws l \<longrightarrow> prev \<noteq> []) \<and> no_orphan l ls)"

definition orphan_free :: "bytes \<Rightarrow> bool" where
  "orphan_free raw = no_orphan [] (physical_lines raw)"

text \<open>Invariants of the unfolding loop used in the proofs.\<close>

definition chars_in :: "char set \<Rightarrow> bytes list \<times> bytes \<Rightarrow> bool" where
  "chars_in C st = ((\<forall>a \<in> set (fst st). set a \<subseteq> C) \<and> set (snd st) \<subseteq> C)"

definition clean_state :: "bytes \<Rightarrow> bytes list \<times> bytes \<Rightarrow> bool" where
  "clean_state prev st =
     ((\<forall>a \<in> set (fst st). \<not> starts_ws a) \<and> \<not> starts_ws (snd st) \<and>
      (prev \<noteq> [] \<longrightarrow> snd st \<noteq> []))"

text \<open>Measures for the second pass: the number of bytes in a list of lines, and the number
  of lines that begin with a space or a tab.\<close>

definition total_len :: "bytes list \<Rightarrow> nat" where
  "total_len ls = sum_list (map length ls)"

definition count_ws :: "bytes list \<Rightarrow> nat" where
  "count_ws ls = length (filter starts_ws ls)"

text \<open>Byte strings used in the examples.\<close>

definition feed_digit_name :: bytes where
  "feed_digit_name =
     ''BEGIN:VEVENT'' @ [CR, LF] @ ''02:SOMEVALUE'' @ [CR, LF] @ ''SUMMARY:02'' @ [CR, LF] @
     ''DESCRIPTION:long'' @ [CR, LF, SP] @ ''er text'' @ [CR, LF] @ ''END:VEVENT'' @ [CR, LF]"

definition feed_orphan :: bytes where
  "feed_orphan = [SP, SP, CHR ''X'']"

section \<open>Dates, times and time zones (the \<open>datetime\<close> and \<open>zoneinfo\<close> values the code uses)\<close>

text \<open>
  The resolver computes with values of Python's \<open>datetime\<close> module. Their fields
  (year, month, day, hour, minute, second, microsecond) are modelled by one integer, the
  number of microseconds of the wall-clock reading since 0001-01-01T00:00:00 in the
  proleptic Gregorian calendar (\<open>dt_wall\<close>); a \<open>date\<close> is its proleptic ordinal
  (\<open>date.toordinal()\<close>, day 1 is 0001-01-01); a \<open>timedelta\<close> is a number of
  microseconds. The conversion between fields and these integers follows
  \<open>_ymd2ord\<close> and \<open>_ord2ymd\<close> of the standard library.
\<close>

datatype exn = ValueError | OverflowError | TypeError | AttributeError | KeyError | OSError
  | RequestException | OtherException

text \<open>\<open>bind\<close> runs the rest of a computation unless an exception was raised.\<close>

fun bind :: "exn + 'a \<Rightarrow> ('a \<Rightarrow> exn + 'b) \<Rightarrow> exn + 'b" where
  "bind (Inl e) f = Inl e"
| "bind (Inr x) f = f x"

definition us_per_second :: int where "us_per_second = 1000000"
definition us_per_minute :: int where "us_per_minute = 60 * us_per_second"
definition us_per_hour :: int where "us_per_hour = 3600 * us_per_second"
definition us_per_day :: int where "us_per_day = 86400 * us_per_second"

text \<open>\<open>date.max.toordinal()\<close> is 3652059 (9999-12-31); a wall-clock reading is in range
  when its day is between ordinal 1 and that day.\<close>

definition MAXORDINAL :: int where "MAXORDINAL = 3652059"

definition in_range :: "int \<Rightarrow> bool" where
  "in_range w = (0 \<le> w \<and> w < MAXORDINAL * us_per_day)"

text \<open>
  A \<open>tzinfo\<close> object: its identity (\<open>ZoneInfo\<close> objects are cached by key, so the key
  stands for the object in the \<open>is\<close> tests of \<open>datetime\<close>), \<open>utcoffset\<close> as a function
  of the wall-clock reading and the \<open>fold\<close> flag, and \<open>fromutc\<close> as the offset and fold
  in force at a UTC reading. The zone database is not part of the repository, so the zone
  is a parameter of everything below.
\<close>

record tzinfo =
  tz_key :: string
  tz_utcoffset :: "int \<Rightarrow> bool \<Rightarrow> int"
  tz_fromutc :: "int \<Rightarrow> int \<times> bool"

text \<open>A zone-aware \<open>datetime\<close>.\<close>

record datetime =
  dt_wall :: int
  dt_fold :: bool
  dt_tz :: tzinfo

text \<open>A \<open>datetime\<close> as the libraries hand it over: zone-naive or zone-aware.\<close>

datatype pydatetime = Naive int | Aware datetime

text \<open>The \<open>.dt\<close> of a DTSTART or DTEND property: a \<open>date\<close>, a \<open>datetime\<close>, or a value of
  another type (a \<open>time\<close>, a \<open>timedelta\<close>, a period).\<close>

datatype dtval = DateVal int | DateTimeVal pydatetime | OtherVal

definition UTC :: tzinfo where
  "UTC = \<lparr>tz_key = ''UTC'', tz_utcoffset = (\<lambda>w f. 0), tz_fromutc = (\<lambda>u. (0, False))\<rparr>"

text \<open>\<open>tz1 is tz2\<close>.\<close>

definition same_tz :: "tzinfo \<Rightarrow> tzinfo \<Rightarrow> bool" where
  "same_tz a b = (tz_key a = tz_key b)"

text \<open>\<open>d.utcoffset()\<close>.\<close>

definition utcoffset :: "datetime \<Rightarrow> int" where
  "utcoffset d = tz_utcoffset (dt_tz d) (dt_wall d) (dt_fold d)"

text \<open>
  \<open>d.astimezone(tz)\<close>: the same object when \<open>tz is d.tzinfo\<close>; otherwise
  \<open>utc = (d - offset).replace(tzinfo=tz)\<close> and \<open>tz.fromutc(utc)\<close>, each of which raises
  OverflowError when it leaves the range of \<open>datetime\<close>.
\<close>

definition astimezone :: "datetime \<Rightarrow> tzinfo \<Rightarrow> exn + datetime" where
  "astimezone d tz =
     (if same_tz tz (dt_tz d) then Inr d
      else let utc = dt_wall d - utcoffset d in
        if \<not> in_range utc then Inl OverflowError
        else case tz_fromutc tz utc of
          (off, fld) \<Rightarrow>
            if \<not> in_range (utc + off) then Inl OverflowError
            else Inr \<lparr>dt_wall = utc + off, dt_fold = fld, dt_tz = tz\<rparr>)"

text \<open>
  Comparison and subtraction of two aware datetimes, as \<open>datetime._cmp\<close> and
  \<open>datetime.__sub__\<close> do them: on the wall-clock fields when both carry the same
  \<open>tzinfo\<close> object, on the UTC readings otherwise.
\<close>

definition dt_le :: "datetime \<Rightarrow> datetime \<Rightarrow> bool" where
  "dt_le a b =
     (if same_tz (dt_tz a) (dt_tz b) then dt_wall a \<le> dt_wall b
      else dt_wall a - utcoffset a \<le> dt_wall b - utcoffset b)"

definition dt_ge :: "datetime \<Rightarrow> datetime \<Rightarrow> bool" where
  "dt_ge a b =
     (if same_tz (dt_tz a) (dt_tz b) then dt_wall a \<ge> dt_wall b
      else dt_wall a - utcoffset a \<ge> dt_wall b - utcoffset b)"

definition dt_sub :: "datetime \<Rightarrow> datetime \<Rightarrow> int" where
  "dt_sub a b =
     (if same_tz (dt_tz a) (dt_tz b) then dt_wall a - dt_wall b
      else dt_wall a - dt_wall b + utcoffset b - utcoffset a)"

text \<open>\<open>d + delta\<close>: wall-clock arithmetic that keeps the \<open>tzinfo\<close>, resets \<open>fold\<close> and
  raises OverflowError out of range.\<close>

definition dt_add :: "datetime \<Rightarrow> int \<Rightarrow> exn + datetime" where
  "dt_add d delta =
     (if in_range (dt_wall d + delta)
      then Inr \<lparr>dt_wall = dt_wall d + delta, dt_fold = False, dt_tz = dt_tz d\<rparr>
      else Inl OverflowError)"

subsection \<open>Calendar fields and ISO 8601 text\<close>

definition is_leap :: "int \<Rightarrow> bool" where
  "is_leap year = (year mod 4 = 0 \<and> (year mod 100 \<noteq> 0 \<or> year mod 400 = 0))"

definition days_before_year :: "int \<Rightarrow> int" where
  "days_before_year year =
     (let y = year - 1 in y * 365 + y div 4 - y div 100 + y div 400)"

definition DAYS_IN_MONTH :: "int list" where
  "DAYS_IN_MONTH = [-1, 31, 28, 31, 30, 31, 30, 31, 31, 30, 31, 30, 31]"

definition DAYS_BEFORE_MONTH :: "int list" where
  "DAYS_BEFORE_MONTH = [-1, 0, 31, 59, 90, 120, 151, 181, 212, 243, 273, 304, 334]"

definition days_before_month :: "int \<Rightarrow> int \<Rightarrow> int" where
  "days_before_month year month =
     DAYS_BEFORE_MONTH ! nat month + (if month > 2 \<and> is_leap year then 1 else 0)"

definition ymd2ord :: "int \<Rightarrow> int \<Rightarrow> int \<Rightarrow> int" where
  "ymd2ord year month day = days_before_year year + days_before_month year month + day"

text \<open>\<open>_ord2ymd\<close>, with its constants \<open>_DI400Y = 146097\<close>, \<open>_DI100Y = 36524\<close> and
  \<open>_DI4Y = 1461\<close>; \<open>(n + 50) >> 5\<close> is \<open>(n + 50) div 32\<close>.\<close>

definition ord2ymd :: "int \<Rightarrow> int \<times> int \<times> int" where
  "ord2ymd ordinal =
     (let n = ordinal - 1;
          n400 = n div 146097; n = n mod 146097;
          n100 = n div 36524; n = n mod 36524;
          n4 = n div 1461; n = n mod 1461;
          n1 = n div 365; n = n mod 365;
          year = n400 * 400 + 1 + n100 * 100 + n4 * 4 + n1
      in if n1 = 4 \<or> n100 = 4 then (year - 1, 12, 31)
         else let leapyear = (n1 = 3 \<and> (n4 \<noteq> 24 \<or> n100 = 3));
                  month = (n + 50) div 32;
                  preceding = DAYS_BEFORE_MONTH ! nat month
                              + (if month > 2 \<and> leapyear then 1 else 0)
              in if preceding > n
                 then let month = month - 1;
                          preceding = preceding - (DAYS_IN_MONTH ! nat month
                                        + (if month = 2 \<and> leapyear then 1 else 0))
                      in (year, month, n - preceding + 1)
                 else (year, month, n - preceding + 1))"

text \<open>The wall-clock reading of \<open>datetime(year, month, day, hour, minute, second)\<close>.\<close>

definition wall_of :: "int \<Rightarrow> int \<Rightarrow> int \<Rightarrow> int \<Rightarrow> int \<Rightarrow> int \<Rightarrow> int" where
  "wall_of year month day hour minute second =
     (ymd2ord year month day - 1) * us_per_day + hour * us_per_hour + minute * us_per_minute
     + second * us_per_second"

text \<open>\<open>"%0wd" % n\<close> for \<open>0 \<le> n < 10 ^ w\<close>, which holds for every field printed below.\<close>

fun pad :: "nat \<Rightarrow> int \<Rightarrow> string" where
  "pad 0 n = []"
| "pad (Suc w) n = pad w (n div 10) @ [char_of (48 + n mod 10)]"

definition format_date :: "int \<Rightarrow> string" where
  "format_date w =
     (case ord2ymd (w div us_per_day + 1) of
        (y, m, d) \<Rightarrow> pad 4 y @ ''-'' @ pad 2 m @ ''-'' @ pad 2 d)"

text \<open>\<open>_format_time\<close> with \<open>timespec='auto'\<close>: microseconds are printed when not zero.\<close>

definition format_time :: "int \<Rightarrow> string" where
  "format_time w =
     (let r = w mod us_per_day;
          hh = r div us_per_hour; mm = r mod us_per_hour div us_per_minute;
          ss = r mod us_per_minute div us_per_second; us = r mod us_per_second
      in pad 2 hh @ '':'' @ pad 2 mm @ '':'' @ pad 2 ss
         @ (if us \<noteq> 0 then ''.'' @ pad 6 us else []))"

text \<open>\<open>_format_offset\<close>.\<close>

definition format_offset :: "int \<Rightarrow> string" where
  "format_offset off =
     (let sign = (if off < 0 then ''-'' else ''+''); a = \<bar>off\<bar>;
          hh = a div us_per_hour; mm = a mod us_per_hour div us_per_minute;
          ss = a mod us_per_minute div us_per_second; us = a mod us_per_second
      in sign @ pad 2 hh @ '':'' @ pad 2 mm
         @ (if ss \<noteq> 0 \<or> us \<noteq> 0
            then '':'' @ pad 2 ss @ (if us \<noteq> 0 then ''.'' @ pad 6 us else [])
            else []))"

text \<open>\<open>d.isoformat()\<close> of an aware datetime.\<close>

definition isoformat :: "datetime \<Rightarrow> string" where
  "isoformat d =
     format_date (dt_wall d) @ ''T'' @ format_time (dt_wall d) @ format_offset (utcoffset d)"

text \<open>\<open>d.strftime("%Y%m%dT%H%M%SZ")\<close> (for years from 1000 on, where \<open>%Y\<close> has four
  digits on every platform).\<close>

definition strftime_basic :: "datetime \<Rightarrow> string" where
  "strftime_basic d =
     (case ord2ymd (dt_wall d div us_per_day + 1) of
        (y, m, dd) \<Rightarrow>
          let r = dt_wall d mod us_per_day in
            pad 4 y @ pad 2 m @ pad 2 dd @ ''T'' @ pad 2 (r div us_per_hour)
            @ pad 2 (r mod us_per_hour div us_per_minute)
            @ pad 2 (r mod us_per_minute div us_per_second) @ ''Z'')"

text \<open>
  The zone \<open>America/Sao_Paulo\<close> as it is in force since 2019 (no daylight saving time,
  three hours behind UTC), which covers the dates of the examples.
\<close>

definition Sao_Paulo :: tzinfo where
  "Sao_Paulo =
     \<lparr>tz_key = ''America/Sao_Paulo'', tz_utcoffset = (\<lambda>w f. - 3 * us_per_hour),
      tz_fromutc = (\<lambda>u. (- 3 * us_per_hour, False))\<rparr>"


section \<open>The calendar resolver (\<open>gcal_events\<close>, daily_digest.py lines 613-807)\<close>

subsection \<open>What the libraries hand over\<close>

text \<open>
  A VEVENT as the loop of \<open>_parse_ics\<close> reads it through \<open>comp.get\<close>: the summary, the
  \<open>.dt\<close> values of DTSTART and DTEND, and the recurrence rule, a mapping from part names
  to lists of values in the order of the feed (the values as \<open>str\<close> renders them).
  Text (\<open>str\<close>) is modelled as \<open>string\<close>.
\<close>

record vevent =
  summary :: "string option"
  dtstart :: "dtval option"
  dtend :: "dtval option"
  rrule :: "(string \<times> string list) list option"

text \<open>
  The libraries of the resolver, which are not part of the repository, are parameters:
  \<open>Calendar.from_ical\<close> followed by \<open>walk("vevent")\<close>, \<open>dateutil.rrule.rrulestr\<close> and the
  \<open>between(w0, w1, inc=True)\<close> of the rule it builds. Each may raise.
\<close>

record 'r libs =
  lib_from_ical :: "bytes \<Rightarrow> exn + vevent list"
  lib_rrulestr :: "string \<Rightarrow> exn + 'r"
  lib_between :: "'r \<Rightarrow> datetime \<Rightarrow> datetime \<Rightarrow> exn + pydatetime list"

text \<open>An occurrence before it is rendered, and the dictionary \<open>{"title", "start", "end"}\<close>
  the resolver returns; \<open>start\<close> and \<open>end\<close> are ISO 8601 text, or \<open>None\<close> when the
  calendar API has neither \<open>dateTime\<close> nor \<open>date\<close>.\<close>

record occurrence =
  occ_title :: string
  occ_start :: datetime
  occ_end :: datetime

record event =
  ev_title :: string
  ev_start :: "string option"
  ev_end :: "string option"

subsection \<open>\<open>_norm\<close> (lines 628-635)\<close>

text \<open>\<open>datetime.combine(d, time.min)\<close> as a wall-clock reading.\<close>

definition combine_midnight :: "int \<Rightarrow> int" where
  "combine_midnight d = (d - 1) * us_per_day"

text \<open>\<open>x.replace(tzinfo=tz)\<close> of a naive datetime.\<close>

definition replace_tzinfo :: "int \<Rightarrow> tzinfo \<Rightarrow> datetime" where
  "replace_tzinfo w tz = \<lparr>dt_wall = w, dt_fold = False, dt_tz = tz\<rparr>"

definition norm :: "tzinfo \<Rightarrow> dtval \<Rightarrow> exn + datetime option" where
  "norm tz dtv =
     (case dtv of
        DateVal d \<Rightarrow> Inr (Some (replace_tzinfo (combine_midnight d) tz))
      | DateTimeVal (Naive w) \<Rightarrow>
          bind (astimezone (replace_tzinfo w UTC) tz) (\<lambda>r. Inr (Some r))
      | DateTimeVal (Aware d) \<Rightarrow> bind (astimezone d tz) (\<lambda>r. Inr (Some r))
      | OtherVal \<Rightarrow> Inr None)"

subsection \<open>\<open>_parse_ics\<close> (lines 637-752)\<close>

text \<open>The placeholder title \<open>"(sem t\<dots>tulo)"\<close>; its seventh character is U+00ED.\<close>

definition no_title :: string where
  "no_title = ''(sem t'' @ [CHR 0xED] @ ''tulo)''"

text \<open>\<open>x or "(sem t\<dots>tulo)"\<close>: the placeholder replaces \<open>None\<close> and the empty text.\<close>

definition title_or_default :: "string option \<Rightarrow> string" where
  "title_or_default x = (case x of None \<Rightarrow> no_title | Some t \<Rightarrow> if t = [] then no_title else t)"

text \<open>
  Lines 675-678: the normalized start and end of a component that has a DTSTART; \<open>None\<close>
  when \<open>not (s1 and e1)\<close> makes the loop skip the component.
\<close>

definition endpoints :: "tzinfo \<Rightarrow> dtval \<Rightarrow> dtval option \<Rightarrow> exn + (datetime \<times> datetime) option" where
  "endpoints tz ds de =
     bind (norm tz ds) (\<lambda>s1.
     bind (case de of
             Some v \<Rightarrow> norm tz v
           | None \<Rightarrow> (case s1 of
                        Some s \<Rightarrow> bind (dt_add s us_per_hour) (\<lambda>e. Inr (Some e))
                      | None \<Rightarrow> Inr None)) (\<lambda>e1.
     Inr (case (s1, e1) of (Some s, Some e) \<Rightarrow> Some (s, e) | _ \<Rightarrow> None)))"

text \<open>The window test of lines 681 and 743. The bounds \<open>START\<close> and \<open>END\<close> are zone-aware
  datetimes, as the caller builds them (lines 893-894).\<close>

definition in_window :: "datetime \<Rightarrow> datetime \<Rightarrow> datetime \<Rightarrow> datetime \<Rightarrow> bool" where
  "in_window START END s e = (dt_le s END \<and> dt_ge e START)"

definition valid_rrule_props :: "string list" where
  "valid_rrule_props =
     [''FREQ'', ''UNTIL'', ''COUNT'', ''INTERVAL'', ''BYSECOND'', ''BYMINUTE'', ''BYHOUR'',
      ''BYDAY'', ''BYMONTHDAY'', ''BYYEARDAY'', ''BYWEEKNO'', ''BYMONTH'', ''BYSETPOS'',
      ''WKST'']"

text \<open>\<open>str.upper\<close> and \<open>str.lower\<close> on ASCII text.\<close>

definition upper_char :: "char \<Rightarrow> char" where
  "upper_char c = (if CHR ''a'' \<le> c \<and> c \<le> CHR ''z'' then char_of (of_char c - (32::nat)) else c)"

definition lower_char :: "char \<Rightarrow> char" where
  "lower_char c = (if CHR ''A'' \<le> c \<and> c \<le> CHR ''Z'' then char_of (of_char c + (32::nat)) else c)"

definition upper :: "string \<Rightarrow> string" where
  "upper t = map upper_char t"

definition lower :: "string \<Rightarrow> string" where
  "lower t = map lower_char t"

text \<open>\<open>sep.join(xs)\<close>.\<close>

fun join :: "string \<Rightarrow> string list \<Rightarrow> string" where
  "join sep [] = []"
| "join sep [x] = x"
| "join sep (x # xs) = x @ sep @ join sep xs"

text \<open>Lines 706-717: the parts of the rule whose name is on the allow-list.\<close>

fun rrule_parts :: "(string \<times> string list) list \<Rightarrow> string list" where
  "rrule_parts [] = []"
| "rrule_parts ((k, v) # rest) =
     (if upper k \<notin> set valid_rrule_props then rrule_parts rest
      else (k @ ''='' @ join '','' v) # rrule_parts rest)"

text \<open>Lines 735-750: the loop over the starts the rule enumerates.\<close>

fun occ_loop ::
  "tzinfo \<Rightarrow> datetime \<Rightarrow> datetime \<Rightarrow> string \<Rightarrow> datetime \<Rightarrow> datetime \<Rightarrow> pydatetime list
     \<Rightarrow> exn + occurrence list" where
  "occ_loop tz START END title s1 e1 [] = Inr []"
| "occ_loop tz START END title s1 e1 (occ # rest) =
     bind (case occ of
             Aware d \<Rightarrow> astimezone d tz
           | Naive w \<Rightarrow> astimezone (replace_tzinfo w UTC) tz) (\<lambda>occ_local.
     let dur = dt_sub e1 s1 in
     bind (dt_add occ_local dur) (\<lambda>oe.
     bind (occ_loop tz START END title s1 e1 rest) (\<lambda>more.
     Inr ((if in_window START END occ_local oe
           then [\<lparr>occ_title = title, occ_start = occ_local, occ_end = oe\<rparr>] else [])
          @ more))))"

text \<open>Lines 687-750: a recurring component. Only a ValueError of \<open>rrulestr\<close> is caught.\<close>

definition expand ::
  "'r libs \<Rightarrow> tzinfo \<Rightarrow> datetime \<Rightarrow> datetime \<Rightarrow> string \<Rightarrow> datetime \<Rightarrow> datetime
     \<Rightarrow> (string \<times> string list) list \<Rightarrow> exn + occurrence list" where
  "expand L tz START END title s1 e1 rr =
     (let parts = rrule_parts rr in
      if parts = [] then Inr []
      else
        let rrule_str = join '';'' parts in
        bind (astimezone s1 UTC) (\<lambda>su.
        let dtstart_utc = strftime_basic su in
        case lib_rrulestr L (''DTSTART:'' @ dtstart_utc @ [LF] @ ''RRULE:'' @ rrule_str) of
          Inl e \<Rightarrow> if e = ValueError then Inr [] else Inl e
        | Inr rule \<Rightarrow>
            bind (astimezone START UTC) (\<lambda>w0.
            bind (astimezone END UTC) (\<lambda>w1.
            bind (lib_between L rule w0 w1) (\<lambda>occs.
            occ_loop tz START END title s1 e1 occs)))))"

text \<open>Lines 671-750: the body of \<open>for comp in cal.walk("vevent")\<close>, as the occurrences one
  component appends. \<open>not rr\<close> holds for a missing rule and for an empty mapping.\<close>

definition vevent_occurrences ::
  "'r libs \<Rightarrow> tzinfo \<Rightarrow> datetime \<Rightarrow> datetime \<Rightarrow> vevent \<Rightarrow> exn + occurrence list" where
  "vevent_occurrences L tz START END component =
     (let title = title_or_default (summary component) in
      case dtstart component of
        None \<Rightarrow> Inr []
      | Some ds \<Rightarrow>
          bind (endpoints tz ds (dtend component)) (\<lambda>p.
          case p of
            None \<Rightarrow> Inr []
          | Some (s1, e1) \<Rightarrow>
              (case rrule component of
                 None \<Rightarrow>
                   Inr (if in_window START END s1 e1
                        then [\<lparr>occ_title = title, occ_start = s1, occ_end = e1\<rparr>] else [])
               | Some rr \<Rightarrow>
                   if rr = []
                   then Inr (if in_window START END s1 e1
                             then [\<lparr>occ_title = title, occ_start = s1, occ_end = e1\<rparr>] else [])
                   else expand L tz START END title s1 e1 rr)))"

fun events_loop ::
  "'r libs \<Rightarrow> tzinfo \<Rightarrow> datetime \<Rightarrow> datetime \<Rightarrow> vevent list \<Rightarrow> exn + occurrence list" where
  "events_loop L tz START END [] = Inr []"
| "events_loop L tz START END (component # rest) =
     bind (vevent_occurrences L tz START END component) (\<lambda>evs.
     bind (events_loop L tz START END rest) (\<lambda>more. Inr (evs @ more)))"

text \<open>The dictionary appended for an occurrence (lines 683 and 745-749).\<close>

definition render :: "occurrence \<Rightarrow> event" where
  "render oc =
     \<lparr>ev_title = occ_title oc, ev_start = Some (isoformat (occ_start oc)),
      ev_end = Some (isoformat (occ_end oc))\<rparr>"

text \<open>
  \<open>_parse_ics\<close>: sanitize (the nested \<open>sanitize_ics\<close> of lines 639-665 is a copy of
  \<open>_sanitize_ics\<close>), parse, collect, and sort by the \<open>start\<close> text with Python's stable
  sort.
\<close>

definition parse_ics ::
  "'r libs \<Rightarrow> tzinfo \<Rightarrow> datetime \<Rightarrow> datetime \<Rightarrow> bytes \<Rightarrow> exn + event list" where
  "parse_ics L tz START END raw =
     bind (lib_from_ical L (sanitize_ics raw)) (\<lambda>comps.
     bind (events_loop L tz START END comps) (\<lambda>occs.
     Inr (sort_key ev_start (map render occs))))"

subsection \<open>The two sources (lines 754-807)\<close>

record response =
  resp_ok :: bool
  resp_content_type :: "string option"
  resp_content :: bytes

record api_item =
  item_summary :: "string option"
  item_start_dateTime :: "string option"
  item_start_date :: "string option"
  item_end_dateTime :: "string option"
  item_end_date :: "string option"

record api_response =
  api_ok :: bool
  api_json_items :: "exn + api_item list"

text \<open>
  What a call reads from outside: the two environment variables, \<open>requests.get\<close> on the
  feed's URL, the file at the feed's path, and \<open>requests.get\<close> on the calendar API with
  the token and the two bounds. Messages printed on the way are not modelled.
\<close>

record world =
  GCAL_ICS_URL :: "string option"
  GOOGLE_CALENDAR_TOKEN :: "string option"
  requests_get :: "string \<Rightarrow> exn + response"
  read_file :: "string \<Rightarrow> exn + bytes"
  calendar_api_get :: "string \<Rightarrow> string \<Rightarrow> string \<Rightarrow> exn + api_response"

definition startswith :: "string \<Rightarrow> string \<Rightarrow> bool" where
  "startswith t p = (take (length p) t = p)"

text \<open>\<open>sub in t\<close>.\<close>

fun contains :: "string \<Rightarrow> string \<Rightarrow> bool" where
  "contains sub [] = (sub = [])"
| "contains sub (c # cs) = (startswith (c # cs) sub \<or> contains sub cs)"

text \<open>\<open>except Exception\<close> around the first source: an exception becomes "go on to the
  second source" (\<open>None\<close>); \<open>Some\<close> is a \<open>return\<close>.\<close>

definition caught :: "exn + 'a \<Rightarrow> 'a option" where
  "caught r = (case r of Inl e \<Rightarrow> None | Inr x \<Rightarrow> Some x)"

definition primary ::
  "'r libs \<Rightarrow> world \<Rightarrow> tzinfo \<Rightarrow> datetime \<Rightarrow> datetime \<Rightarrow> event list option" where
  "primary L W tz START END =
     (case GCAL_ICS_URL W of
        None \<Rightarrow> None
      | Some ics_src \<Rightarrow>
          if ics_src = [] then None
          else if startswith ics_src ''http://'' \<or> startswith ics_src ''https://'' then
            (case requests_get W ics_src of
               Inl e \<Rightarrow> None
             | Inr resp \<Rightarrow>
                 let ct = (case resp_content_type resp of None \<Rightarrow> [] | Some c \<Rightarrow> c) in
                 if \<not> resp_ok resp then None
                 else if \<not> contains ''text/calendar'' (lower ct) then None
                 else caught (parse_ics L tz START END (resp_content resp)))
          else
            (case read_file W ics_src of
               Inl e \<Rightarrow> None
             | Inr raw \<Rightarrow> caught (parse_ics L tz START END raw)))"

text \<open>\<open>to_iso_z\<close> (lines 38-39).\<close>

definition to_iso_z :: "datetime \<Rightarrow> exn + string" where
  "to_iso_z d = bind (astimezone d UTC) (\<lambda>u. Inr (isoformat u))"

text \<open>\<open>a or b\<close> on optional text.\<close>

definition py_or :: "string option \<Rightarrow> string option \<Rightarrow> string option" where
  "py_or a b = (case a of None \<Rightarrow> b | Some t \<Rightarrow> if t = [] then b else Some t)"

definition api_event :: "api_item \<Rightarrow> event" where
  "api_event ev =
     \<lparr>ev_title = title_or_default (item_summary ev),
      ev_start = py_or (item_start_dateTime ev) (item_start_date ev),
      ev_end = py_or (item_end_dateTime ev) (item_end_date ev)\<rparr>"

text \<open>Lines 778-807: the calendar API. Nothing here is inside a \<open>try\<close>.\<close>

definition fallback :: "world \<Rightarrow> datetime \<Rightarrow> datetime \<Rightarrow> exn + event list" where
  "fallback W START END =
     (case GOOGLE_CALENDAR_TOKEN W of
        None \<Rightarrow> Inr []
      | Some token \<Rightarrow>
          if token = [] then Inr []
          else
            bind (to_iso_z START) (\<lambda>timeMin.
            bind (to_iso_z END) (\<lambda>timeMax.
            bind (calendar_api_get W token timeMin timeMax) (\<lambda>r.
            if \<not> api_ok r then Inr []
            else bind (api_json_items r) (\<lambda>items. Inr (map api_event items))))))"

definition gcal_events ::
  "'r libs \<Rightarrow> world \<Rightarrow> tzinfo \<Rightarrow> datetime \<Rightarrow> datetime \<Rightarrow> exn + event list" where
  "gcal_events L W tz START END =
     (case primary L W tz START END of
        Some events \<Rightarrow> Inr events
      | None \<Rightarrow> fallback W START END)"

section \<open>Vocabulary and examples for the resolver's properties\<close>

text \<open>
  Python's \<open>==\<close> on two aware datetimes (\<open>datetime.__eq__\<close>): the wall-clock fields when
  both carry the same \<open>tzinfo\<close> object; otherwise unequal when the offset of either
  depends on \<open>fold\<close>, and else the UTC readings.
\<close>

definition fold_sensitive :: "datetime \<Rightarrow> bool" where
  "fold_sensitive d = (tz_utcoffset (dt_tz d) (dt_wall d) (\<not> dt_fold d) \<noteq> utcoffset d)"

definition dt_eq :: "datetime \<Rightarrow> datetime \<Rightarrow> bool" where
  "dt_eq a b =
     (if same_tz (dt_tz a) (dt_tz b) then dt_wall a = dt_wall b
      else if fold_sensitive a \<or> fold_sensitive b then False
      else dt_wall a - utcoffset a = dt_wall b - utcoffset b)"

text \<open>Two results of \<open>_norm\<close> are the same when both are \<open>None\<close> or both are datetimes that
  compare equal; a result that raised is the same as none.\<close>

fun same_normalized :: "exn + datetime option \<Rightarrow> exn + datetime option \<Rightarrow> bool" where
  "same_normalized (Inr (Some a)) (Inr (Some b)) = dt_eq a b"
| "same_normalized (Inr None) (Inr None) = True"
| "same_normalized r1 r2 = False"

text \<open>The feed bytes the first source delivers, if it does (lines 755-771 without the
  parse): the URL or path is set, the fetch or read raises nothing, and for a URL the
  response is \<open>ok\<close> and its content type contains \<open>text/calendar\<close>.\<close>

definition feed_bytes :: "world \<Rightarrow> bytes option" where
  "feed_bytes W =
     (case GCAL_ICS_URL W of
        None \<Rightarrow> None
      | Some ics_src \<Rightarrow>
          if ics_src = [] then None
          else if startswith ics_src ''http://'' \<or> startswith ics_src ''https://'' then
            (case requests_get W ics_src of
               Inl e \<Rightarrow> None
             | Inr resp \<Rightarrow>
                 if resp_ok resp \<and>
                    contains ''text/calendar''
                      (lower (case resp_content_type resp of None \<Rightarrow> [] | Some c \<Rightarrow> c))
                 then Some (resp_content resp) else None)
          else (case read_file W ics_src of Inl e \<Rightarrow> None | Inr raw \<Rightarrow> Some raw))"

text \<open>
  The scenario of the specification: one VEVENT with \<open>DTSTART:20250919T140000Z\<close>,
  \<open>DTEND:20250919T150000Z\<close> and \<open>SUMMARY:Standup\<close>, as the calendar library hands it over
  (a \<open>Z\<close> time is an aware datetime in UTC), and the window
  \<open>[2025-09-19T00:00:00-03:00, 2025-09-19T23:59:59-03:00]\<close>.
\<close>

definition standup :: vevent where
  "standup =
     \<lparr>summary = Some ''Standup'',
      dtstart = Some (DateTimeVal (Aware (replace_tzinfo (wall_of 2025 9 19 14 0 0) UTC))),
      dtend = Some (DateTimeVal (Aware (replace_tzinfo (wall_of 2025 9 19 15 0 0) UTC))),
      rrule = None\<rparr>"

definition day_start :: datetime where
  "day_start = replace_tzinfo (wall_of 2025 9 19 0 0 0) Sao_Paulo"

definition day_end :: datetime where
  "day_end = replace_tzinfo (wall_of 2025 9 19 23 59 59) Sao_Paulo"

definition standup_feed :: bytes where
  "standup_feed =
     ''BEGIN:VCALENDAR'' @ [CR, LF] @ ''BEGIN:VEVENT'' @ [CR, LF] @
     ''DTSTART:20250919T140000Z'' @ [CR, LF] @ ''DTEND:20250919T150000Z'' @ [CR, LF] @
     ''SUMMARY:Standup'' @ [CR, LF] @ ''END:VEVENT'' @ [CR, LF] @ ''END:VCALENDAR'' @ [CR, LF]"

text \<open>A stand-in for the libraries that parses the feed above and builds no rule.\<close>

definition standup_libs :: "unit libs" where
  "standup_libs =
     \<lparr>lib_from_ical = (\<lambda>b. if b = sanitize_ics standup_feed then Inr [standup] else Inl ValueError),
      lib_rrulestr = (\<lambda>t. Inl ValueError),
      lib_between = (\<lambda>r w0 w1. Inr [])\<rparr>"

text \<open>A rule with no part on the allow-list.\<close>

definition unknown_rule :: "(string \<times> string list) list" where
  "unknown_rule = [(''X-CUSTOM'', [''1'']), (''foo'', [''BAR'', ''BAZ''])]"














text \<open>A machine without network: the feed's URL and a token are configured, and every
  request raises.\<close>

definition offline_world :: world where
  "offline_world =
     \<lparr>GCAL_ICS_URL = Some ''https://calendar.example/basic.ics'',
      GOOGLE_CALENDAR_TOKEN = Some ''token'',
      requests_get = (\<lambda>url. Inl RequestException),
      read_file = (\<lambda>path. Inl OSError),
      calendar_api_get = (\<lambda>token timeMin timeMax. Inl RequestException)\<rparr>"

section \<open>Properties of the sanitizer\<close>

lemma dropWhile_all_iff:
  "(\<forall>c \<in> set (dropWhile P s). P c) \<longleftrightarrow> (\<forall>c \<in> set s. P c)"
proof
  assume a: "\<forall>c \<in> set (dropWhile P s). P c"
  have "dropWhile P s = []"
  proof (cases "dropWhile P s")
    case Nil then show ?thesis .
  next
    case (Cons x xs)
    then have "\<not> P x" using hd_dropWhile [of P s] by simp
    with a Cons show ?thesis by simp
  qed
  then show "\<forall>c \<in> set s. P c" by (simp add: dropWhile_eq_Nil_conv)
next
  assume "\<forall>c \<in> set s. P c"
  then show "\<forall>c \<in> set (dropWhile P s). P c" by (auto dest: set_dropWhileD)
qed

lemma strip_Nil_iff: "strip s = [] \<longleftrightarrow> blank s"
  by (simp add: strip_def blank_def list_all_iff dropWhile_eq_Nil_conv dropWhile_all_iff)

lemma filter_loop_acc:
  "filter_loop acc ls = acc @ filter (\<lambda>l. \<not> blank l \<and> \<not> digit_name l) ls"
  by (induction ls arbitrary: acc) (simp_all add: strip_Nil_iff digit_name_def)

lemma split_lf_not_Nil: "split_lf s \<noteq> []"
  by (induction s) (auto split: list.splits)

lemma split_lf_no_LF: "l \<in> set (split_lf s) \<Longrightarrow> LF \<notin> set l"
  by (induction s arbitrary: l) (auto split: list.splits if_splits)

lemma split_lf_chars: "l \<in> set (split_lf s) \<Longrightarrow> set l \<subseteq> set s"
proof (induction s arbitrary: l)
  case Nil
  then show ?case by simp
next
  case (Cons c cs)
  obtain h t where ht: "split_lf cs = h # t"
    using split_lf_not_Nil [of cs] by (cases "split_lf cs") auto
  have "set h \<subseteq> set cs" using Cons.IH [of h] ht by simp
  moreover have "\<And>x. x \<in> set t \<Longrightarrow> set x \<subseteq> set cs" using Cons.IH ht by simp
  ultimately show ?case using Cons.prems ht by (auto split: if_splits)
qed

lemma split_lf_append_no_LF:
  "LF \<notin> set l \<Longrightarrow> split_lf (l @ LF # s) = l # split_lf s"
  by (induction l) (auto split: list.splits)

lemma split_lf_single: "LF \<notin> set l \<Longrightarrow> split_lf l = [l]"
  by (induction l) (auto split: list.splits)

lemma split_join:
  "ls \<noteq> [] \<Longrightarrow> \<forall>l \<in> set ls. LF \<notin> set l \<Longrightarrow> split_lf (join_lf ls) = ls"
  by (induction ls rule: join_lf.induct) (simp_all add: split_lf_single split_lf_append_no_LF)

lemma replace_crlf_id: "CR \<notin> set s \<Longrightarrow> replace_crlf s = s"
  by (induction s rule: replace_crlf.induct) auto

lemma replace_cr_id: "CR \<notin> set s \<Longrightarrow> replace_cr s = s"
  by (induction s) (auto simp: replace_cr_def)

lemma replace_cr_no_CR: "CR \<notin> set (replace_cr s)"
  by (auto simp: replace_cr_def)

lemma set_join_lf: "set (join_lf ls) \<subseteq> insert LF (\<Union> (set ` set ls))"
  by (induction ls rule: join_lf.induct) auto

lemma unfold_step_chars:
  assumes "chars_in C st" "set l \<subseteq> C"
  shows "chars_in C (unfold_step st l)"
proof -
  obtain acc cur where st: "st = (acc, cur)" by (cases st) auto
  have "set (tl l) \<subseteq> C" using assms(2) by (cases l) auto
  then show ?thesis using assms st by (auto simp: chars_in_def)
qed

lemma unfold_loop_chars:
  "chars_in C st \<Longrightarrow> \<forall>l \<in> set ls. set l \<subseteq> C \<Longrightarrow> chars_in C (unfold_loop st ls)"
  by (induction ls arbitrary: st) (simp_all add: unfold_step_chars del: unfold_step.simps)

lemma unfold_lines_chars:
  assumes "\<forall>l \<in> set ls. set l \<subseteq> C" "u \<in> set (unfold_lines ls)"
  shows "set u \<subseteq> C"
proof -
  have "chars_in C ([], [])" by (simp add: chars_in_def)
  then have "chars_in C (unfold_loop ([], []) ls)" using assms(1) by (rule unfold_loop_chars)
  then show ?thesis using assms(2)
    by (cases "unfold_loop ([], []) ls") (auto simp: unfold_lines_def chars_in_def split: if_splits)
qed

lemma unfold_loop_plain:
  "\<forall>l \<in> set ls. l \<noteq> [] \<and> \<not> starts_ws l \<Longrightarrow> cur \<noteq> [] \<Longrightarrow>
   unfold_loop (acc, cur) ls = (acc @ butlast (cur # ls), last (cur # ls))"
  by (induction ls arbitrary: acc cur) simp_all

lemma unfold_lines_plain:
  assumes "ls \<noteq> []" "\<forall>l \<in> set ls. l \<noteq> [] \<and> \<not> starts_ws l"
  shows "unfold_lines ls = ls"
proof -
  obtain l rest where ls: "ls = l # rest" using assms(1) by (cases ls) auto
  have l: "l \<noteq> []" "\<not> starts_ws l" and rest: "\<forall>x \<in> set rest. x \<noteq> [] \<and> \<not> starts_ws x"
    using assms(2) ls by simp_all
  have "unfold_loop ([], []) ls = unfold_loop ([], l) rest" using ls l by simp
  also have "\<dots> = (butlast (l # rest), last (l # rest))"
    using unfold_loop_plain [OF rest l(1), of "[]"] by simp
  finally have "unfold_loop ([], []) ls = (butlast ls, last ls)" using ls by simp
  moreover have "last ls \<noteq> []" using assms by simp
  ultimately show ?thesis using assms(1) by (simp add: unfold_lines_def)
qed

lemma unfold_step_clean:
  assumes "clean_state prev st" "starts_ws l \<longrightarrow> prev \<noteq> []"
  shows "clean_state l (unfold_step st l)"
proof -
  obtain acc cur where st: "st = (acc, cur)" by (cases st) auto
  show ?thesis
  proof (cases "starts_ws l")
    case True
    then have "cur \<noteq> []" using assms st by (simp add: clean_state_def)
    moreover have "\<not> starts_ws cur" using assms st by (simp add: clean_state_def)
    ultimately have "\<not> starts_ws (cur @ tl l)" by (cases cur) auto
    then show ?thesis using True assms(1) st \<open>cur \<noteq> []\<close> by (simp add: clean_state_def)
  next
    case False
    then show ?thesis using assms(1) st by (simp add: clean_state_def)
  qed
qed

lemma unfold_loop_clean:
  "clean_state prev st \<Longrightarrow> no_orphan prev ls \<Longrightarrow>
   (\<forall>a \<in> set (fst (unfold_loop st ls)). \<not> starts_ws a) \<and> \<not> starts_ws (snd (unfold_loop st ls))"
proof (induction ls arbitrary: prev st)
  case Nil
  then show ?case by (simp add: clean_state_def)
next
  case (Cons l ls)
  have "clean_state l (unfold_step st l)"
    using unfold_step_clean [OF Cons.prems(1)] Cons.prems(2) by simp
  moreover have "no_orphan l ls" using Cons.prems(2) by simp
  ultimately show ?case using Cons.IH [of l "unfold_step st l"] by simp
qed

lemma unfold_lines_no_orphan:
  assumes "no_orphan [] ls" "u \<in> set (unfold_lines ls)"
  shows "\<not> starts_ws u"
proof -
  have "clean_state [] ([], [])" by (simp add: clean_state_def)
  from unfold_loop_clean [OF this assms(1)] show ?thesis using assms(2)
    by (cases "unfold_loop ([], []) ls") (auto simp: unfold_lines_def split: if_splits)
qed

lemma unfolded_lines_physical: "unfolded_lines raw = unfold_lines (physical_lines raw)"
  by (simp add: unfolded_lines_def)

lemma sanitized_lines_filter:
  "sanitized_lines raw = filter (\<lambda>l. \<not> blank l \<and> \<not> digit_name l) (unfolded_lines raw)"
  by (simp add: sanitized_lines_def filter_loop_acc)

lemma physical_lines_chars:
  assumes "l \<in> set (physical_lines raw)" shows "LF \<notin> set l \<and> CR \<notin> set l"
proof -
  have "LF \<notin> set l" using assms by (simp add: physical_lines_def split_lf_no_LF)
  moreover have "set l \<subseteq> set (replace_cr (replace_crlf raw))"
    using assms by (simp add: physical_lines_def split_lf_chars)
  then have "CR \<notin> set l" using replace_cr_no_CR [of "replace_crlf raw"] by blast
  ultimately show ?thesis by simp
qed

lemma unfolded_lines_chars:
  assumes "l \<in> set (unfolded_lines raw)" shows "LF \<notin> set l \<and> CR \<notin> set l"
proof -
  have "\<forall>p \<in> set (physical_lines raw). set p \<subseteq> - {LF, CR}"
    using physical_lines_chars by blast
  then have "set l \<subseteq> - {LF, CR}"
    using assms unfold_lines_chars [of "physical_lines raw" "- {LF, CR}" l]
    by (simp add: unfolded_lines_physical)
  then show ?thesis by blast
qed

lemma sanitized_line_props:
  assumes "l \<in> set (sanitized_lines raw)"
  shows "l \<in> set (unfolded_lines raw)" "\<not> blank l" "\<not> digit_name l" "l \<noteq> []"
    "LF \<notin> set l" "CR \<notin> set l"
proof -
  show u: "l \<in> set (unfolded_lines raw)" and b: "\<not> blank l" and "\<not> digit_name l"
    using assms by (simp_all add: sanitized_lines_filter)
  show "l \<noteq> []" using b by (auto simp: blank_def)
  show "LF \<notin> set l" "CR \<notin> set l" using unfolded_lines_chars [OF u] by simp_all
qed

lemma sanitize_again:
  assumes "\<forall>l \<in> set (sanitized_lines raw). \<not> starts_ws l"
  shows "sanitized_lines (sanitize_ics raw) = sanitized_lines raw"
proof (cases "sanitized_lines raw = []")
  case True
  then have "sanitize_ics raw = []" by (simp add: sanitize_ics_def)
  moreover have "sanitized_lines [] = []"
    by (simp add: sanitized_lines_def unfolded_lines_def physical_lines_def unfold_lines_def replace_cr_def)
  ultimately show ?thesis using True by simp
next
  case False
  let ?out = "sanitized_lines raw"
  have noLF: "\<forall>l \<in> set ?out. LF \<notin> set l" and noCR: "\<forall>l \<in> set ?out. CR \<notin> set l"
    using sanitized_line_props(5,6) by blast+
  have "set (join_lf ?out) \<subseteq> insert LF (\<Union> (set ` set ?out))" by (rule set_join_lf)
  then have "CR \<notin> set (join_lf ?out)" using noCR by auto
  then have "physical_lines (join_lf ?out) = split_lf (join_lf ?out)"
    by (simp add: physical_lines_def replace_crlf_id replace_cr_id)
  also have "\<dots> = ?out" using False noLF by (rule split_join)
  finally have phys: "physical_lines (sanitize_ics raw) = ?out" by (simp add: sanitize_ics_def)
  have "\<forall>l \<in> set ?out. l \<noteq> [] \<and> \<not> starts_ws l"
    using assms sanitized_line_props(4) by blast
  with False have "unfold_lines ?out = ?out" by (rule unfold_lines_plain)
  then have "unfolded_lines (sanitize_ics raw) = ?out"
    using phys by (simp add: unfolded_lines_physical)
  then have "sanitized_lines (sanitize_ics raw) = filter (\<lambda>l. \<not> blank l \<and> \<not> digit_name l) ?out"
    by (simp add: sanitized_lines_filter)
  also have "\<dots> = ?out" using sanitized_line_props(2,3) by (simp add: filter_id_conv)
  finally show ?thesis .
qed

lemma orphan_free_no_ws:
  assumes "orphan_free raw" "l \<in> set (sanitized_lines raw)"
  shows "\<not> starts_ws l"
  using assms unfold_lines_no_orphan [of "physical_lines raw" l] sanitized_line_props(1) [of l raw]
  by (simp add: orphan_free_def unfolded_lines_physical)

lemma sanitize_output_lines:
  "sanitized_lines raw \<noteq> [] \<Longrightarrow> split_lf (sanitize_ics raw) = sanitized_lines raw"
  unfolding sanitize_ics_def using sanitized_line_props(5) by (intro split_join) blast+

lemma digit_name_02: "digit_name ''02:SOMEVALUE''"
  by (simp add: digit_name_def before_colon_def strip_def is_space_def isdigit_def is_digit_def)

lemma not_digit_name_SUMMARY: "\<not> digit_name ''SUMMARY:02'' \<and> \<not> blank ''SUMMARY:02''"
  by (simp add: digit_name_def blank_def before_colon_def strip_def is_space_def isdigit_def is_digit_def)

subsection \<open>Claim C7: digit-only property names\<close>

text \<open>
  Claim C7. Among the logical lines that are not blank (blank lines are removed by the
  test before it), the sanitizer drops exactly those whose property name, the bytes before
  the first colon with surrounding whitespace stripped, is a non-empty run of decimal
  digits; the surviving lines are kept unchanged and in order, and the result is their
  join with line feeds. The line \<open>02:SOMEVALUE\<close> is never a line of the output, whatever the
  feed; a logical line \<open>SUMMARY:02\<close> of the feed is a line of the output. The function is
  total: no input makes it raise.
\<close>

theorem sanitize_drops_digit_only_names:
  "sanitized_lines raw = filter (\<lambda>l. \<not> digit_name l) (filter (\<lambda>l. \<not> blank l) (unfolded_lines raw))
   \<and> sanitize_ics raw = join_lf (sanitized_lines raw)
   \<and> ''02:SOMEVALUE'' \<notin> set (sanitized_lines raw)
   \<and> ''02:SOMEVALUE'' \<notin> set (split_lf (sanitize_ics raw))
   \<and> (''SUMMARY:02'' \<in> set (unfolded_lines raw) \<longrightarrow> ''SUMMARY:02'' \<in> set (sanitized_lines raw)
        \<and> ''SUMMARY:02'' \<in> set (split_lf (sanitize_ics raw)))"
proof -
  have f: "sanitized_lines raw = filter (\<lambda>l. \<not> digit_name l) (filter (\<lambda>l. \<not> blank l) (unfolded_lines raw))"
    by (simp add: sanitized_lines_filter conj_commute)
  have a: "''02:SOMEVALUE'' \<notin> set (sanitized_lines raw)"
    using digit_name_02 by (simp add: f)
  have b: "''02:SOMEVALUE'' \<notin> set (split_lf (sanitize_ics raw))"
  proof (cases "sanitized_lines raw = []")
    case True
    then show ?thesis by (simp add: sanitize_ics_def)
  next
    case False
    then show ?thesis using a by (simp add: sanitize_output_lines)
  qed
  have c: "''SUMMARY:02'' \<in> set (sanitized_lines raw) \<and> ''SUMMARY:02'' \<in> set (split_lf (sanitize_ics raw))"
    if u: "''SUMMARY:02'' \<in> set (unfolded_lines raw)"
  proof -
    have m: "''SUMMARY:02'' \<in> set (sanitized_lines raw)"
      using u not_digit_name_SUMMARY by (simp add: f)
    then have "sanitized_lines raw \<noteq> []" by auto
    then show ?thesis using m by (simp add: sanitize_output_lines)
  qed
  show ?thesis using f a b c by (simp add: sanitize_ics_def)
qed

lemma feed_digit_name_unfolded:
  "unfolded_lines feed_digit_name =
     [''BEGIN:VEVENT'', ''02:SOMEVALUE'', ''SUMMARY:02'', ''DESCRIPTION:longer text'', ''END:VEVENT'']"
  by code_simp

theorem sanitize_drops_digit_only_names_witness:
  "''SUMMARY:02'' \<in> set (unfolded_lines feed_digit_name)
   \<and> ''02:SOMEVALUE'' \<in> set (unfolded_lines feed_digit_name)
   \<and> ''SUMMARY:02'' \<in> set (sanitized_lines feed_digit_name)
   \<and> ''02:SOMEVALUE'' \<notin> set (sanitized_lines feed_digit_name)"
proof -
  have h: "''SUMMARY:02'' \<in> set (unfolded_lines feed_digit_name)"
    and h2: "''02:SOMEVALUE'' \<in> set (unfolded_lines feed_digit_name)"
    by (simp_all add: feed_digit_name_unfolded)
  show ?thesis using h h2 sanitize_drops_digit_only_names [of feed_digit_name] by blast
qed

lemma sanitize_feed_digit_name:
  "sanitize_ics feed_digit_name =
     ''BEGIN:VEVENT'' @ [LF] @ ''SUMMARY:02'' @ [LF] @ ''DESCRIPTION:longer text'' @ [LF] @
     ''END:VEVENT''"
  by code_simp

subsection \<open>Claim C10: lines without a colon\<close>

text \<open>
  Claim C10. A logical line that is not blank and has no colon is kept unchanged by the
  sanitizer, also when it consists of decimal digits only: the digit test of lines
  366-369 is guarded by \<open>b":" in line\<close>.
\<close>

theorem sanitize_keeps_colonless_lines:
  "l \<in> set (unfolded_lines raw) \<Longrightarrow> \<not> blank l \<Longrightarrow> CHR '':'' \<notin> set l \<Longrightarrow>
     l \<in> set (sanitized_lines raw) \<and> l \<in> set (split_lf (sanitize_ics raw))"
proof -
  assume u: "l \<in> set (unfolded_lines raw)" and b: "\<not> blank l" and c: "CHR '':'' \<notin> set l"
  have m: "l \<in> set (sanitized_lines raw)"
    using u b c by (simp add: sanitized_lines_filter digit_name_def)
  then have "sanitized_lines raw \<noteq> []" by auto
  then show ?thesis using m by (simp add: sanitize_output_lines)
qed

theorem sanitize_keeps_colonless_lines_witness:
  "''12345'' \<in> set (unfolded_lines ''12345'') \<and> \<not> blank ''12345'' \<and> CHR '':'' \<notin> set ''12345''
   \<and> isdigit ''12345'' \<and> ''12345'' \<in> set (sanitized_lines ''12345'')
   \<and> ''12345'' \<in> set (split_lf (sanitize_ics ''12345''))"
proof -
  have h1: "''12345'' \<in> set (unfolded_lines ''12345'')" by code_simp
  have h2: "\<not> blank ''12345''" by code_simp
  have h3: "CHR '':'' \<notin> set ''12345''" by simp
  have h4: "isdigit ''12345''" by code_simp
  show ?thesis using h1 h2 h3 h4 sanitize_keeps_colonless_lines [OF h1 h2 h3] by simp
qed

subsection \<open>Claim C8: idempotence\<close>

text \<open>Unfolding removes one byte for every line that begins with a space or a tab, and the
  filter removes none back, so a second pass over an output with such a line is shorter.\<close>

lemma starts_ws_length: "starts_ws l \<Longrightarrow> length (tl l) + 1 = length l"
  by (cases l) auto

lemma unfold_step_total:
  "total_len (fst (unfold_step st l)) + length (snd (unfold_step st l)) + (if starts_ws l then 1 else 0)
     = total_len (fst st) + length (snd st) + length l"
  by (cases st) (auto simp: total_len_def dest: starts_ws_length)

lemma unfold_loop_total:
  "total_len (fst (unfold_loop st ls)) + length (snd (unfold_loop st ls)) + count_ws ls
     = total_len (fst st) + length (snd st) + total_len ls"
proof (induction ls arbitrary: st)
  case Nil
  show ?case by (simp add: total_len_def count_ws_def)
next
  case (Cons l ls)
  have "total_len (fst (unfold_loop (unfold_step st l) ls))
          + length (snd (unfold_loop (unfold_step st l) ls)) + count_ws ls
        = total_len (fst (unfold_step st l)) + length (snd (unfold_step st l)) + total_len ls"
    by (rule Cons.IH)
  moreover have "count_ws (l # ls) = count_ws ls + (if starts_ws l then 1 else 0)"
    by (simp add: count_ws_def)
  moreover have "total_len (l # ls) = length l + total_len ls" by (simp add: total_len_def)
  ultimately show ?case using unfold_step_total [of st l] by simp
qed

lemma unfold_lines_total: "total_len (unfold_lines ls) + count_ws ls = total_len ls"
proof -
  have "total_len (unfold_lines ls)
          = total_len (fst (unfold_loop ([], []) ls)) + length (snd (unfold_loop ([], []) ls))"
    by (cases "unfold_loop ([], []) ls") (simp add: unfold_lines_def total_len_def)
  then show ?thesis using unfold_loop_total [of "([], [])" ls] by (simp add: total_len_def)
qed

lemma total_len_filter: "total_len (filter P ls) \<le> total_len ls"
  by (induction ls) (simp_all add: total_len_def)

lemma join_lf_length: "total_len ls \<le> length (join_lf ls)"
  by (induction ls rule: join_lf.induct) (simp_all add: total_len_def)

lemma join_lf_inj:
  assumes "join_lf xs = join_lf ys" "\<forall>l \<in> set xs. LF \<notin> set l \<and> l \<noteq> []"
    "\<forall>l \<in> set ys. LF \<notin> set l \<and> l \<noteq> []"
  shows "xs = ys"
proof (cases "xs = []")
  case True
  then have "join_lf ys = []" using assms(1) by simp
  then have "total_len ys = 0" using join_lf_length [of ys] by simp
  then have "ys = []" using assms(3) by (cases ys) (auto simp: total_len_def)
  with True show ?thesis by simp
next
  case False
  then have "total_len xs \<noteq> 0" using assms(2) by (cases xs) (auto simp: total_len_def)
  then have "join_lf ys \<noteq> []" using join_lf_length [of xs] assms(1) by auto
  then have ys: "ys \<noteq> []" by auto
  have "xs = split_lf (join_lf xs)" using False assms(2) by (simp add: split_join)
  also have "\<dots> = ys" using ys assms(1,3) by (simp add: split_join)
  finally show ?thesis .
qed

lemma sanitize_twice_differs:
  assumes "l \<in> set (sanitized_lines raw)" "starts_ws l"
  shows "sanitize_ics (sanitize_ics raw) \<noteq> sanitize_ics raw"
proof
  let ?out = "sanitized_lines raw"
  let ?out2 = "sanitized_lines (sanitize_ics raw)"
  assume eq: "sanitize_ics (sanitize_ics raw) = sanitize_ics raw"
  have p1: "\<forall>l \<in> set ?out. LF \<notin> set l \<and> l \<noteq> []"
    using sanitized_line_props(4,5) by blast
  have p2: "\<forall>l \<in> set ?out2. LF \<notin> set l \<and> l \<noteq> []"
    using sanitized_line_props(4,5) by blast
  have same: "?out2 = ?out"
    using eq p1 p2 by (intro join_lf_inj) (simp_all add: sanitize_ics_def)
  have ne: "?out \<noteq> []" using assms(1) by auto
  have noCR: "\<forall>l \<in> set ?out. CR \<notin> set l" using sanitized_line_props(6) by blast
  have "set (join_lf ?out) \<subseteq> insert LF (\<Union> (set ` set ?out))" by (rule set_join_lf)
  then have "CR \<notin> set (join_lf ?out)" using noCR by auto
  then have "physical_lines (join_lf ?out) = split_lf (join_lf ?out)"
    by (simp add: physical_lines_def replace_crlf_id replace_cr_id)
  also have "\<dots> = ?out" using ne p1 by (simp add: split_join)
  finally have phys: "physical_lines (sanitize_ics raw) = ?out" by (simp add: sanitize_ics_def)
  have "?out2 = filter (\<lambda>l. \<not> blank l \<and> \<not> digit_name l) (unfold_lines ?out)"
    using phys by (simp add: sanitized_lines_filter unfolded_lines_physical)
  then have "total_len ?out2 \<le> total_len (unfold_lines ?out)" by (simp add: total_len_filter)
  moreover have "count_ws ?out > 0"
    using assms by (auto simp: count_ws_def filter_empty_conv)
  ultimately have "total_len ?out2 < total_len ?out"
    using unfold_lines_total [of ?out] by simp
  then show False using same by simp
qed

text \<open>
  The feed \<open>b"  X"\<close> is one continuation line with nothing before it. Unfolding strips one
  byte, so the first pass returns \<open>b" X"\<close>; the second pass strips the remaining space and
  returns \<open>b"X"\<close>.
\<close>

theorem sanitize_not_idempotent_counterexample:
  "sanitize_ics (sanitize_ics feed_orphan) \<noteq> sanitize_ics feed_orphan"
  by code_simp

text \<open>
  Claim C8, amended. Sanitizing the output of the sanitizer returns it unchanged exactly
  when no line of that output begins with a space or a tab; this is the case for every
  feed without an orphan continuation line.
\<close>

theorem sanitize_idempotent_iff:
  "(sanitize_ics (sanitize_ics raw) = sanitize_ics raw
      \<longleftrightarrow> list_all (\<lambda>l. \<not> starts_ws l) (sanitized_lines raw))
   \<and> (orphan_free raw \<longrightarrow> sanitize_ics (sanitize_ics raw) = sanitize_ics raw)"
proof -
  have a: "sanitize_ics (sanitize_ics raw) = sanitize_ics raw"
    if "\<forall>l \<in> set (sanitized_lines raw). \<not> starts_ws l"
    using sanitize_again [OF that] by (simp add: sanitize_ics_def)
  have b: "\<forall>l \<in> set (sanitized_lines raw). \<not> starts_ws l" if "orphan_free raw"
    using that orphan_free_no_ws by blast
  have c: "\<forall>l \<in> set (sanitized_lines raw). \<not> starts_ws l"
    if "sanitize_ics (sanitize_ics raw) = sanitize_ics raw"
    using that sanitize_twice_differs by blast
  show ?thesis using a b c by (auto simp: list_all_iff)
qed

theorem sanitize_idempotent_iff_witness:
  "list_all (\<lambda>l. \<not> starts_ws l) (sanitized_lines feed_digit_name) \<and> orphan_free feed_digit_name
   \<and> sanitize_ics (sanitize_ics feed_digit_name) = sanitize_ics feed_digit_name"
proof -
  have h1: "list_all (\<lambda>l. \<not> starts_ws l) (sanitized_lines feed_digit_name)" by code_simp
  have h2: "orphan_free feed_digit_name" by code_simp
  show ?thesis using h1 h2 sanitize_idempotent_iff [of feed_digit_name] by blast
qed

subsection \<open>Claim C9: shape of the produced lines\<close>

text \<open>On the feed \<open>b"  X"\<close> the sanitizer produces the line \<open>b" X"\<close>, which begins with a
  space.\<close>

theorem sanitized_line_leading_space_counterexample:
  "[SP, CHR ''X''] \<in> set (sanitized_lines feed_orphan) \<and> starts_ws [SP, CHR ''X'']
   \<and> sanitize_ics feed_orphan = [SP, CHR ''X'']"
  by code_simp

text \<open>
  Claim C9, amended. Every line the sanitizer produces is non-empty, is not
  whitespace-only and contains neither LF nor CR; when the feed has no orphan continuation
  line, it does not begin with a space or a tab either.
\<close>

theorem sanitized_lines_not_blank:
  "l \<in> set (sanitized_lines raw) \<Longrightarrow>
     l \<noteq> [] \<and> \<not> blank l \<and> LF \<notin> set l \<and> CR \<notin> set l \<and> (orphan_free raw \<longrightarrow> \<not> starts_ws l)"
  using sanitized_line_props(2,4,5,6) [of l raw] orphan_free_no_ws [of raw l] by blast

theorem sanitized_lines_not_blank_witness:
  "''SUMMARY:02'' \<in> set (sanitized_lines feed_digit_name) \<and> orphan_free feed_digit_name
   \<and> ''SUMMARY:02'' \<noteq> [] \<and> \<not> blank ''SUMMARY:02'' \<and> \<not> starts_ws ''SUMMARY:02''"
proof -
  have h1: "''SUMMARY:02'' \<in> set (sanitized_lines feed_digit_name)" by code_simp
  have h2: "orphan_free feed_digit_name" by code_simp
  show ?thesis using h1 h2 sanitized_lines_not_blank [OF h1] by blast
qed

section \<open>Properties of the resolver\<close>

subsection \<open>Exceptions and datetime arithmetic\<close>




subsection \<open>The iterations over starts and components\<close>



lemma rrule_parts_unrecognized:
  "list_all (\<lambda>(k, v). upper k \<notin> set valid_rrule_props) rr \<Longrightarrow> rrule_parts rr = []"
  by (induction rr rule: rrule_parts.induct) simp_all



subsection \<open>Evaluating the examples\<close>

lemma wall_vals:
  "wall_of 2025 9 19 14 0 0 = 63893887200000000"
  "wall_of 2025 9 19 15 0 0 = 63893890800000000"
  "wall_of 2025 9 19 11 0 0 = 63893876400000000"
  "wall_of 2025 9 19 12 0 0 = 63893880000000000"
  "wall_of 2025 9 19 0 0 0 = 63893836800000000"
  "wall_of 2025 9 19 23 59 59 = 63893923199000000"
  by code_simp+


lemmas tz_simps = astimezone_def same_tz_def replace_tzinfo_def UTC_def Sao_Paulo_def
  utcoffset_def in_range_def MAXORDINAL_def us_per_day_def us_per_hour_def us_per_second_def



lemma standup_endpoints:
  "endpoints Sao_Paulo (DateTimeVal (Aware (replace_tzinfo (wall_of 2025 9 19 14 0 0) UTC)))
     (Some (DateTimeVal (Aware (replace_tzinfo (wall_of 2025 9 19 15 0 0) UTC))))
   = Inr (Some (replace_tzinfo (wall_of 2025 9 19 11 0 0) Sao_Paulo,
                replace_tzinfo (wall_of 2025 9 19 12 0 0) Sao_Paulo))"
  by (simp add: endpoints_def norm_def tz_simps wall_vals)

lemma standup_in_window:
  "in_window day_start day_end (replace_tzinfo (wall_of 2025 9 19 11 0 0) Sao_Paulo)
     (replace_tzinfo (wall_of 2025 9 19 12 0 0) Sao_Paulo)"
  by (simp add: in_window_def dt_le_def dt_ge_def same_tz_def day_start_def day_end_def
      replace_tzinfo_def wall_vals)

lemma standup_occurrences:
  "vevent_occurrences L Sao_Paulo day_start day_end standup =
     Inr [\<lparr>occ_title = ''Standup'', occ_start = replace_tzinfo (wall_of 2025 9 19 11 0 0) Sao_Paulo,
           occ_end = replace_tzinfo (wall_of 2025 9 19 12 0 0) Sao_Paulo\<rparr>]"
  by (simp add: vevent_occurrences_def standup_def standup_endpoints title_or_default_def
      standup_in_window)

lemma iso_11:
  "isoformat (replace_tzinfo (wall_of 2025 9 19 11 0 0) Sao_Paulo) = ''2025-09-19T11:00:00-03:00''"
  by code_simp

lemma iso_12:
  "isoformat (replace_tzinfo (wall_of 2025 9 19 12 0 0) Sao_Paulo) = ''2025-09-19T12:00:00-03:00''"
  by code_simp

lemma iso_window:
  "isoformat day_start = ''2025-09-19T00:00:00-03:00''"
  "isoformat day_end = ''2025-09-19T23:59:59-03:00''"
  by code_simp+

lemma sanitize_standup_feed:
  "sanitize_ics standup_feed =
     ''BEGIN:VCALENDAR'' @ [LF] @ ''BEGIN:VEVENT'' @ [LF] @ ''DTSTART:20250919T140000Z'' @ [LF] @
     ''DTEND:20250919T150000Z'' @ [LF] @ ''SUMMARY:Standup'' @ [LF] @ ''END:VEVENT'' @ [LF] @
     ''END:VCALENDAR''"
  by code_simp

subsection \<open>Claim C1: the end-to-end scenario\<close>

text \<open>
  Claim C1. When the feed holds exactly the VEVENT \<open>standup\<close> (that is what the calendar
  library returns for the sanitized feed), resolving over the window
  \<open>[2025-09-19T00:00:00-03:00, 2025-09-19T23:59:59-03:00]\<close> in the zone
  \<open>America/Sao_Paulo\<close> returns exactly one occurrence, titled \<open>Standup\<close>, with start
  \<open>2025-09-19T11:00:00-03:00\<close> (and end \<open>2025-09-19T12:00:00-03:00\<close>).
\<close>

theorem standup_scenario:
  assumes "lib_from_ical L (sanitize_ics raw) = Inr [standup]"
  shows "parse_ics L Sao_Paulo day_start day_end raw =
           Inr [\<lparr>ev_title = ''Standup'', ev_start = Some ''2025-09-19T11:00:00-03:00'',
                 ev_end = Some ''2025-09-19T12:00:00-03:00''\<rparr>]"
  using assms by (simp add: parse_ics_def standup_occurrences render_def iso_11 iso_12)

theorem standup_scenario_witness:
  "lib_from_ical standup_libs (sanitize_ics standup_feed) = Inr [standup]
   \<and> parse_ics standup_libs Sao_Paulo day_start day_end standup_feed =
       Inr [\<lparr>ev_title = ''Standup'', ev_start = Some ''2025-09-19T11:00:00-03:00'',
             ev_end = Some ''2025-09-19T12:00:00-03:00''\<rparr>]"
proof -
  have h: "lib_from_ical standup_libs (sanitize_ics standup_feed) = Inr [standup]"
    by (simp add: standup_libs_def)
  show ?thesis using h standup_scenario [OF h] by simp
qed

subsection \<open>Claim C3: a date against its midnight\<close>

lemma norm_date: "norm tz (DateVal D) = Inr (Some (replace_tzinfo (combine_midnight D) tz))"
  by (simp add: norm_def)

lemma in_range_midnight: "1 \<le> D \<Longrightarrow> D \<le> MAXORDINAL \<Longrightarrow> in_range (combine_midnight D)"
  by (simp add: in_range_def combine_midnight_def us_per_day_def us_per_second_def)

lemma norm_naive_midnight:
  assumes "\<not> same_tz tz UTC" "in_range w"
  shows "norm tz (DateTimeVal (Naive w)) =
           (case tz_fromutc tz w of
              (off, fld) \<Rightarrow>
                if in_range (w + off) then Inr (Some \<lparr>dt_wall = w + off, dt_fold = fld, dt_tz = tz\<rparr>)
                else Inl OverflowError)"
  using assms
  by (simp add: norm_def astimezone_def replace_tzinfo_def utcoffset_def UTC_def same_tz_def
      split: prod.splits)

text \<open>
  In the zone \<open>America/Sao_Paulo\<close> the date 2025-09-19 becomes
  \<open>2025-09-19T00:00:00-03:00\<close>, and the naive datetime \<open>2025-09-19T00:00:00\<close>, read as UTC,
  becomes \<open>2025-09-18T21:00:00-03:00\<close>.
\<close>

theorem norm_date_vs_midnight_counterexample:
  "\<not> same_normalized (norm Sao_Paulo (DateVal (ymd2ord 2025 9 19)))
       (norm Sao_Paulo (DateTimeVal (Naive (combine_midnight (ymd2ord 2025 9 19)))))"
proof -
  have d: "ymd2ord 2025 9 19 = 739513" by code_simp
  show ?thesis by (simp add: d norm_def tz_simps combine_midnight_def dt_eq_def)
qed

text \<open>
  Claim C3, amended. A date becomes midnight of that date on the wall clock of the
  reference zone; the naive datetime at midnight of the date is read as UTC and converted.
  The two results are equal exactly when the reference zone is the UTC object itself or
  its offset from UTC at that instant is zero.
\<close>

theorem norm_date_vs_midnight:
  assumes "1 \<le> D" "D \<le> MAXORDINAL"
  shows "norm tz (DateVal D) = Inr (Some (replace_tzinfo (combine_midnight D) tz))
    \<and> (same_normalized (norm tz (DateVal D)) (norm tz (DateTimeVal (Naive (combine_midnight D))))
        \<longleftrightarrow> same_tz tz UTC \<or> fst (tz_fromutc tz (combine_midnight D)) = 0)"
proof (cases "same_tz tz UTC")
  case True
  then have "norm tz (DateTimeVal (Naive (combine_midnight D)))
               = Inr (Some (replace_tzinfo (combine_midnight D) UTC))"
    by (simp add: norm_def astimezone_def replace_tzinfo_def)
  then show ?thesis using True by (simp add: norm_date dt_eq_def replace_tzinfo_def)
next
  case False
  have r: "in_range (combine_midnight D)" using assms by (rule in_range_midnight)
  obtain off fld where f: "tz_fromutc tz (combine_midnight D) = (off, fld)"
    by (cases "tz_fromutc tz (combine_midnight D)") auto
  show ?thesis
  proof (cases "in_range (combine_midnight D + off)")
    case True
    then show ?thesis using False f
      by (simp add: norm_date norm_naive_midnight [OF False r] dt_eq_def replace_tzinfo_def
          same_tz_def)
  next
    case False
    then have "off \<noteq> 0" using r by auto
    then show ?thesis using \<open>\<not> same_tz tz UTC\<close> False f
      by (simp add: norm_date norm_naive_midnight [OF \<open>\<not> same_tz tz UTC\<close> r])
  qed
qed

theorem norm_date_vs_midnight_witness:
  "(1::int) \<le> 739513 \<and> 739513 \<le> MAXORDINAL
   \<and> same_normalized (norm UTC (DateVal 739513)) (norm UTC (DateTimeVal (Naive (combine_midnight 739513))))
   \<and> norm UTC (DateVal 739513) = Inr (Some (replace_tzinfo (combine_midnight 739513) UTC))"
proof -
  have h1: "(1::int) \<le> 739513" by simp
  have h2: "739513 \<le> MAXORDINAL" by (simp add: MAXORDINAL_def)
  have h3: "same_tz UTC UTC" by (simp add: same_tz_def)
  show ?thesis using h1 h2 h3 norm_date_vs_midnight [OF h1 h2, of UTC] by blast
qed

subsection \<open>Claim C4: rules without a recognized part\<close>

text \<open>A component whose rule is present and empty passes the test \<open>not rr\<close> of line 680
  and is handled as a non-recurring event: in the window, it yields one occurrence.\<close>

theorem empty_rule_counterexample:
  "vevent_occurrences standup_libs Sao_Paulo day_start day_end (standup\<lparr>rrule := Some []\<rparr>) =
     Inr [\<lparr>occ_title = ''Standup'', occ_start = replace_tzinfo (wall_of 2025 9 19 11 0 0) Sao_Paulo,
           occ_end = replace_tzinfo (wall_of 2025 9 19 12 0 0) Sao_Paulo\<rparr>]"
  by (simp add: vevent_occurrences_def standup_def standup_endpoints title_or_default_def
      standup_in_window)

text \<open>
  Claim C4, amended. A component whose rule has at least one part, all of them outside
  the allow-list, yields no occurrence, and no error of its own: the result is the empty
  list unless normalizing its start or end raised. A component whose rule is present and
  empty yields what the same component without a rule yields.
\<close>

theorem unrecognized_rule_no_occurrences:
  "(rrule c = Some rr \<and> rr \<noteq> [] \<and> list_all (\<lambda>(k, v). upper k \<notin> set valid_rrule_props) rr \<longrightarrow>
      vevent_occurrences L tz START END c =
        (case dtstart c of
           None \<Rightarrow> Inr []
         | Some ds \<Rightarrow> bind (endpoints tz ds (dtend c)) (\<lambda>p. Inr [])))
   \<and> (rrule c = Some [] \<longrightarrow>
        vevent_occurrences L tz START END c = vevent_occurrences L tz START END (c\<lparr>rrule := None\<rparr>))"
proof -
  have a: "vevent_occurrences L tz START END c =
             (case dtstart c of None \<Rightarrow> Inr []
              | Some ds \<Rightarrow> bind (endpoints tz ds (dtend c)) (\<lambda>p. Inr []))"
    if "rrule c = Some rr" "rr \<noteq> []" "list_all (\<lambda>(k, v). upper k \<notin> set valid_rrule_props) rr"
  proof (cases "dtstart c")
    case None
    then show ?thesis by (simp add: vevent_occurrences_def)
  next
    case (Some ds)
    have e: "expand L tz START END t s e rr = Inr []" for t s e
      using rrule_parts_unrecognized [OF that(3)] by (simp add: expand_def)
    show ?thesis
      using Some that(1,2)
      by (cases "endpoints tz ds (dtend c)") (auto simp: vevent_occurrences_def e split: option.splits)
  qed
  have b: "vevent_occurrences L tz START END c = vevent_occurrences L tz START END (c\<lparr>rrule := None\<rparr>)"
    if "rrule c = Some []"
  proof (cases "dtstart c")
    case None
    then show ?thesis by (simp add: vevent_occurrences_def)
  next
    case (Some ds)
    show ?thesis
      using Some that
      by (cases "endpoints tz ds (dtend c)") (auto simp: vevent_occurrences_def split: option.splits)
  qed
  show ?thesis using a b by blast
qed

theorem unrecognized_rule_no_occurrences_witness:
  "rrule (standup\<lparr>rrule := Some unknown_rule\<rparr>) = Some unknown_rule \<and> unknown_rule \<noteq> []
   \<and> list_all (\<lambda>(k, v). upper k \<notin> set valid_rrule_props) unknown_rule
   \<and> vevent_occurrences standup_libs Sao_Paulo day_start day_end (standup\<lparr>rrule := Some unknown_rule\<rparr>)
       = Inr []
   \<and> rrule (standup\<lparr>rrule := Some []\<rparr>) = Some []
   \<and> vevent_occurrences standup_libs Sao_Paulo day_start day_end (standup\<lparr>rrule := Some []\<rparr>)
       = vevent_occurrences standup_libs Sao_Paulo day_start day_end standup"
proof -
  let ?c = "standup\<lparr>rrule := Some unknown_rule\<rparr>"
  have h1: "rrule ?c = Some unknown_rule" by simp
  have h2: "unknown_rule \<noteq> []" by (simp add: unknown_rule_def)
  have h3: "list_all (\<lambda>(k, v). upper k \<notin> set valid_rrule_props) unknown_rule" by code_simp
  have e: "(case dtstart ?c of None \<Rightarrow> Inr []
            | Some ds \<Rightarrow> bind (endpoints Sao_Paulo ds (dtend ?c)) (\<lambda>p. Inr [])) = (Inr [] :: exn + occurrence list)"
    by (simp add: standup_def standup_endpoints)
  have h4: "rrule (standup\<lparr>rrule := Some []\<rparr>) = Some []" by simp
  have n: "standup\<lparr>rrule := Some [], rrule := None\<rparr> = standup" by (simp add: standup_def)
  show ?thesis
    using h1 h2 h3 h4 e n
      unrecognized_rule_no_occurrences [of ?c unknown_rule standup_libs Sao_Paulo day_start day_end]
      unrecognized_rule_no_occurrences [of "standup\<lparr>rrule := Some []\<rparr>" "[]" standup_libs Sao_Paulo day_start day_end]
    by simp
qed

subsection \<open>Claim C5: the duration of expanded occurrences\<close>
















subsection \<open>Claim C6: the window test of a non-recurring component\<close>






subsection \<open>Claim C2: one source or the other\<close>

text \<open>
  The result of a call is the parse of the feed when the first source delivers bytes that
  parse, and the answer of the calendar API otherwise: never a union. Without a token, and
  when the API answers with an error status, the second source gives the empty list; an
  exception of the request to the API is not caught.
\<close>

lemma gcal_events_cases:
  "gcal_events L W tz START END =
     (case feed_bytes W of
        None \<Rightarrow> fallback W START END
      | Some raw \<Rightarrow>
          (case parse_ics L tz START END raw of
             Inl e \<Rightarrow> fallback W START END
           | Inr events \<Rightarrow> Inr events))"
  by (simp add: gcal_events_def primary_def feed_bytes_def caught_def Let_def
      split: option.splits sum.splits)

lemma fallback_without_token:
  "GOOGLE_CALENDAR_TOKEN W = None \<or> GOOGLE_CALENDAR_TOKEN W = Some [] \<Longrightarrow>
   fallback W START END = Inr []"
  by (auto simp: fallback_def)

lemma fallback_not_ok:
  assumes "GOOGLE_CALENDAR_TOKEN W = Some token" "token \<noteq> []"
    "to_iso_z START = Inr timeMin" "to_iso_z END = Inr timeMax"
    "calendar_api_get W token timeMin timeMax = Inr r" "\<not> api_ok r"
  shows "fallback W START END = Inr []"
  using assms by (simp add: fallback_def)

lemma fallback_raises:
  assumes "GOOGLE_CALENDAR_TOKEN W = Some token" "token \<noteq> []"
    "to_iso_z START = Inr timeMin" "to_iso_z END = Inr timeMax"
    "calendar_api_get W token timeMin timeMax = Inl e"
  shows "fallback W START END = Inl e"
  using assms by (simp add: fallback_def)

lemma to_iso_z_day:
  "to_iso_z day_start = Inr (isoformat (replace_tzinfo (wall_of 2025 9 19 0 0 0 + 3 * us_per_hour) UTC))"
  "to_iso_z day_end = Inr (isoformat (replace_tzinfo (wall_of 2025 9 19 23 59 59 + 3 * us_per_hour) UTC))"
  by (simp_all add: to_iso_z_def day_start_def day_end_def tz_simps wall_vals)

text \<open>
  Claim C2 at a machine without network. The request for the feed raises, which the
  \<open>try\<close> of lines 756-775 catches; the request to the calendar API (line 790) raises
  too and is outside every \<open>try\<close>, so the call raises instead of returning the empty
  list.
\<close>

theorem gcal_events_raises_when_offline:
  "gcal_events standup_libs offline_world Sao_Paulo day_start day_end = Inl RequestException"
proof -
  have "feed_bytes offline_world = None"
    by (simp add: feed_bytes_def offline_world_def startswith_def)
  moreover have "fallback offline_world day_start day_end = Inl RequestException"
    by (rule fallback_raises [of offline_world "''token''", OF _ _ to_iso_z_day])
      (simp_all add: offline_world_def)
  ultimately show ?thesis by (simp add: gcal_events_cases)
qed

end
